theory Spec2Isabelle
  imports Main
begin

section \<open>Data model\<close>

text \<open>
  The program (\<^verbatim>\<open>main.py\<close>) keeps an append-only table \<^verbatim>\<open>complaints\<close> of versioned
  complaint rows and reconciles it against a freshly downloaded CSV snapshot.

  A cell of a dataframe or of the table is NULL (pandas NaN/NaT/None) or a value of one of
  the three SQL column types that \<^verbatim>\<open>create_main_table\<close> emits.
\<close>

datatype cell = NULL | INTEGER int | TIMESTAMP int | TEXT string

text \<open>
  A row with the columns of the CSV. Only three columns are named by the code:
  \<^verbatim>\<open>complaint_id\<close>, \<^verbatim>\<open>date_received\<close> and \<^verbatim>\<open>product\<close>; all the others are kept, in schema
  order, in \<open>other_columns\<close>. Instants are integers (microseconds); \<open>None\<close> is NaT.
\<close>

record complaint =
  complaint_id :: int
  date_received :: "int option"
  product :: cell
  other_columns :: "cell list"

text \<open>
  A row of the table: the CSV columns and \<^verbatim>\<open>update_stamp\<close>, which is part of the primary
  key and therefore never NULL.
\<close>

record stored = complaint +
  update_stamp :: int

text \<open>\<^verbatim>\<open>df['update_stamp'] = now\<close> on a frame with the CSV columns.\<close>

definition set_update_stamp :: "int \<Rightarrow> complaint \<Rightarrow> stored" where
  "set_update_stamp now r =
     \<lparr>complaint_id = complaint_id r, date_received = date_received r,
      product = product r, other_columns = other_columns r, update_stamp = now\<rparr>"

text \<open>\<^verbatim>\<open>df.loc[:, df.columns != 'update_stamp']\<close>.\<close>

definition drop_update_stamp :: "stored \<Rightarrow> complaint" where
  "drop_update_stamp r =
     \<lparr>complaint_id = complaint_id r, date_received = date_received r,
      product = product r, other_columns = other_columns r\<rparr>"

text \<open>
  \<^verbatim>\<open>df[['complaint_id', 'date_received']]\<close>, seen in the schema of the table: a column that
  the frame does not have is NULL in the row that \<^verbatim>\<open>to_sql\<close> inserts.
\<close>

definition only_complaint_id_and_date_received :: "stored \<Rightarrow> complaint" where
  "only_complaint_id_and_date_received r =
     \<lparr>complaint_id = complaint_id r, date_received = date_received r,
      product = NULL, other_columns = map (\<lambda>_. NULL) (other_columns r)\<rparr>"

text \<open>
  The two dataframes that \<^verbatim>\<open>update_months_data\<close> hands to its three stages. The stages add
  a boolean column to each in place; \<open>None\<close> says that the column is not there (yet).
\<close>

record new_entries_df =
  new_rows :: "complaint list"
  already_saved :: "bool list option"

record entries_from_db_df =
  db_rows :: "stored list"
  was_removed :: "bool list option"

datatype error = KeyError string | IntegrityError

section \<open>Dataframe primitives\<close>

text \<open>Boolean-mask selection \<^verbatim>\<open>df[mask]\<close>.\<close>

definition boolean_index :: "'a list \<Rightarrow> bool list \<Rightarrow> 'a list" where
  "boolean_index df flags = map fst (filter snd (zip df flags))"

text \<open>\<^verbatim>\<open>series.isin(values)\<close>.\<close>

definition isin :: "'a list \<Rightarrow> 'a list \<Rightarrow> bool list" where
  "isin series vals = map (\<lambda>x. x \<in> set vals) series"

text \<open>\<^verbatim>\<open>series.duplicated()\<close>: true for every occurrence of a value but the first.\<close>

fun duplicated_from :: "'a list \<Rightarrow> 'a list \<Rightarrow> bool list" where
  "duplicated_from seen [] = []"
| "duplicated_from seen (x # xs) = (x \<in> set seen) # duplicated_from (x # seen) xs"

definition duplicated :: "'a list \<Rightarrow> bool list" where
  "duplicated series = duplicated_from [] series"

text \<open>
  \<^verbatim>\<open>df.drop_duplicates(subset=key, keep=False)\<close>: every row whose key occurs more than once
  is dropped, the first occurrence too.
\<close>

definition drop_duplicates_keep_False :: "('a \<Rightarrow> 'k) \<Rightarrow> 'a list \<Rightarrow> 'a list" where
  "drop_duplicates_keep_False key df =
     filter (\<lambda>r. count_list (map key df) (key r) = 1) df"

text \<open>\<^verbatim>\<open>series.max()\<close>; the maximum of an empty series is NaT.\<close>

definition series_max :: "int list \<Rightarrow> int option" where
  "series_max series = (case series of [] \<Rightarrow> None | x # xs \<Rightarrow> Some (fold max xs x))"

section \<open>The table\<close>

text \<open>
  \<^verbatim>\<open>prepare_table_creation_string\<close> declares \<^verbatim>\<open>PRIMARY KEY (complaint_id, update_stamp)\<close>.
\<close>

definition primary_key :: "stored \<Rightarrow> int \<times> int" where
  "primary_key r = (complaint_id r, update_stamp r)"

text \<open>
  \<^verbatim>\<open>df.to_sql('complaints', con=engine, if_exists='append', index=False)\<close>: one INSERT of all
  the rows of the frame in one transaction. A row whose primary key is already taken makes
  the statement fail, nothing of the frame is inserted and the exception propagates. The
  table is the list of its rows in the order of insertion, and a cell is read back as it
  was written.
\<close>

definition to_sql :: "stored list \<Rightarrow> stored list \<Rightarrow> error + stored list" where
  "to_sql df table =
     (if distinct (map primary_key df) \<and>
         set (map primary_key df) \<inter> set (map primary_key table) = {}
      then Inr (table @ df) else Inl IntegrityError)"

text \<open>
  \<^verbatim>\<open>strftime("%Y-%m-%d %H:%M:%S")\<close> drops the microseconds of the instant.
\<close>

definition strftime_seconds :: "int \<Rightarrow> int" where
  "strftime_seconds date_time = date_time - date_time mod 1000000"

text \<open>\<^verbatim>\<open>series > date_time\<close>: a comparison with NaT (NULL in SQL) is false.\<close>

definition received_after :: "int \<Rightarrow> 'a complaint_scheme \<Rightarrow> bool" where
  "received_after date_time r =
     (case date_received r of None \<Rightarrow> False | Some d \<Rightarrow> d > date_time)"

definition get_entries_received_after_chosen_datetime :: "stored list \<Rightarrow> int \<Rightarrow> stored list" where
  "get_entries_received_after_chosen_datetime table date_time =
     (let string_datetime = strftime_seconds date_time
      in filter (received_after string_datetime) table)"

section \<open>Latest-version resolver\<close>

text \<open>
  \<^verbatim>\<open>leave_only_last_update_in_df\<close>. The loop runs over a Python \<^verbatim>\<open>set\<close>, whose iteration order
  is fixed by the interpreter; \<open>set_iter\<close> is that order, as a function of the list the set is
  built from.
\<close>

definition leave_only_last_update_in_df ::
  "(int list \<Rightarrow> int list) \<Rightarrow> stored list \<Rightarrow> stored list" where
  "leave_only_last_update_in_df set_iter df =
     (let latest_updates = drop_duplicates_keep_False complaint_id df;
          non_unique_ids = boolean_index df (duplicated (map complaint_id df));
          non_unique_ids_set = set_iter (map complaint_id non_unique_ids)
      in fold (\<lambda>i latest_updates.
                 let this_id = filter (\<lambda>r. complaint_id r = i) df
                 in latest_updates @
                    filter (\<lambda>r. Some (update_stamp r) = series_max (map update_stamp this_id))
                      this_id)
           non_unique_ids_set latest_updates)"

section \<open>The three write stages\<close>

text \<open>
  Each stage builds a frame \<^verbatim>\<open>df_to_save\<close> and hands it to \<^verbatim>\<open>to_sql\<close>. The first part is
  modelled by the functions \<open>\<dots>_frame\<close>, which return the dataframe that the stage has
  changed in place together with \<^verbatim>\<open>df_to_save\<close>; the stage itself then appends the frame to
  the table. Each stage reads the clock itself (\<^verbatim>\<open>pd.to_datetime('now')\<close>); \<open>now\<close> is the
  value that this call returns.
\<close>

definition save_new_entries_frame ::
  "int \<Rightarrow> new_entries_df \<Rightarrow> entries_from_db_df \<Rightarrow> new_entries_df \<times> stored list" where
  "save_new_entries_frame now new_entries entries_from_db =
     (let saved = isin (map complaint_id (new_rows new_entries))
                    (map complaint_id (db_rows entries_from_db));
          new_entries = new_entries\<lparr>already_saved := Some saved\<rparr>;
          df_to_save = boolean_index (new_rows new_entries) (map (\<lambda>b. b = False) saved);
          df_to_save = map (set_update_stamp now) df_to_save
      in (new_entries, df_to_save))"

definition save_new_entries ::
  "int \<Rightarrow> new_entries_df \<Rightarrow> entries_from_db_df \<Rightarrow> stored list
     \<Rightarrow> error + (new_entries_df \<times> stored list)" where
  "save_new_entries now new_entries entries_from_db table =
     (case save_new_entries_frame now new_entries entries_from_db of
        (new_entries, df_to_save) \<Rightarrow>
          (case to_sql df_to_save table of
             Inl e \<Rightarrow> Inl e
           | Inr table \<Rightarrow> Inr (new_entries, table)))"

definition delete_disappeared_entries_frame ::
  "int \<Rightarrow> new_entries_df \<Rightarrow> entries_from_db_df \<Rightarrow> entries_from_db_df \<times> stored list" where
  "delete_disappeared_entries_frame now new_entries entries_from_db =
     (let removed = map Not (isin (map complaint_id (db_rows entries_from_db))
                               (map complaint_id (new_rows new_entries)));
          entries_from_db = entries_from_db\<lparr>was_removed := Some removed\<rparr>;
          df_to_save = boolean_index (db_rows entries_from_db) (map (\<lambda>b. b = True) removed);
          df_to_save = filter (\<lambda>r. product r \<noteq> NULL) df_to_save;
          df_to_save = map only_complaint_id_and_date_received df_to_save;
          df_to_save = map (set_update_stamp now) df_to_save
      in (entries_from_db, df_to_save))"

definition delete_disappeared_entries ::
  "int \<Rightarrow> new_entries_df \<Rightarrow> entries_from_db_df \<Rightarrow> stored list
     \<Rightarrow> error + (entries_from_db_df \<times> stored list)" where
  "delete_disappeared_entries now new_entries entries_from_db table =
     (case delete_disappeared_entries_frame now new_entries entries_from_db of
        (entries_from_db, df_to_save) \<Rightarrow>
          (case to_sql df_to_save table of
             Inl e \<Rightarrow> Inl e
           | Inr table \<Rightarrow> Inr (entries_from_db, table)))"

text \<open>
  Reading a column that the dataframe does not have raises \<^verbatim>\<open>KeyError\<close>.
\<close>

definition update_changed_entries_frame ::
  "int \<Rightarrow> new_entries_df \<Rightarrow> entries_from_db_df \<Rightarrow> error + stored list" where
  "update_changed_entries_frame now new_entries entries_from_db =
     (case already_saved new_entries of
        None \<Rightarrow> Inl (KeyError ''already_saved'')
      | Some saved \<Rightarrow>
          (let new_entries = boolean_index (new_rows new_entries) (map (\<lambda>b. b \<noteq> False) saved);
               new_entries = map (set_update_stamp now) new_entries
           in (case was_removed entries_from_db of
                 None \<Rightarrow> Inl (KeyError ''was_removed'')
               | Some removed \<Rightarrow>
                   (let df_to_save = new_entries @
                          boolean_index (db_rows entries_from_db) (map (\<lambda>b. b \<noteq> True) removed);
                        df_to_save = drop_duplicates_keep_False id (map drop_update_stamp df_to_save);
                        updated_row_ids = set (map complaint_id df_to_save);
                        df_to_save = filter (\<lambda>r. complaint_id r \<in> updated_row_ids) new_entries
                    in Inr df_to_save))))"

definition update_changed_entries ::
  "int \<Rightarrow> new_entries_df \<Rightarrow> entries_from_db_df \<Rightarrow> stored list \<Rightarrow> error + stored list" where
  "update_changed_entries now new_entries entries_from_db table =
     (case update_changed_entries_frame now new_entries entries_from_db of
        Inl e \<Rightarrow> Inl e
      | Inr df_to_save \<Rightarrow> to_sql df_to_save table)"

section \<open>One reconciliation run\<close>

text \<open>
  \<^verbatim>\<open>update_months_data\<close>. \<open>reader\<close> is the sequence of chunks of the CSV, \<open>date_month_ago\<close>
  the cutoff computed from the wall clock, \<open>now1\<close>, \<open>now2\<close> and \<open>now3\<close> the readings of the
  clock in the three stages, in the order of the calls. \<open>snapshot\<close> is the dataframe
  \<^verbatim>\<open>new_entries\<close> that the loop over the chunks builds, \<open>prior\<close> the dataframe
  \<^verbatim>\<open>entries_from_db\<close> after the resolver. The result of a run is the exception that ended
  it, if any, and the table as the run leaves it. Nothing in \<^verbatim>\<open>update_months_data\<close> catches
  an exception: the one that a stage raises ends the run, and the handler of \<^verbatim>\<open>__main__\<close>
  prints it.
\<close>

definition snapshot :: "complaint list list \<Rightarrow> int \<Rightarrow> complaint list" where
  "snapshot reader date_month_ago =
     fold (\<lambda>chunk new_entries. new_entries @ filter (received_after date_month_ago) chunk)
       reader []"

definition prior :: "(int list \<Rightarrow> int list) \<Rightarrow> stored list \<Rightarrow> int \<Rightarrow> stored list" where
  "prior set_iter table date_month_ago =
     (let entries_from_db = get_entries_received_after_chosen_datetime table date_month_ago
      in leave_only_last_update_in_df set_iter entries_from_db)"

definition update_months_data ::
  "(int list \<Rightarrow> int list) \<Rightarrow> complaint list list \<Rightarrow> int \<Rightarrow> int \<Rightarrow> int \<Rightarrow> int \<Rightarrow> stored list
     \<Rightarrow> error option \<times> stored list" where
  "update_months_data set_iter reader date_month_ago now1 now2 now3 table =
     (let new_entries = \<lparr>new_rows = snapshot reader date_month_ago, already_saved = None\<rparr>;
          entries_from_db = \<lparr>db_rows = prior set_iter table date_month_ago, was_removed = None\<rparr>
      in case save_new_entries now1 new_entries entries_from_db table of
           Inl e \<Rightarrow> (Some e, table)
         | Inr (new_entries, table) \<Rightarrow>
             (case delete_disappeared_entries now2 new_entries entries_from_db table of
                Inl e \<Rightarrow> (Some e, table)
              | Inr (entries_from_db, table) \<Rightarrow>
                  (case update_changed_entries now3 new_entries entries_from_db table of
                     Inl e \<Rightarrow> (Some e, table)
                   | Inr table \<Rightarrow> (None, table))))"

section \<open>What a run classifies\<close>

text \<open>
  The code has no explicit disposition: an entity is new, removed or changed when the
  matching stage puts a row for it into its \<^verbatim>\<open>df_to_save\<close>, and unchanged when no stage
  does. \<open>frames_of_run\<close> are the three frames of one run, built as \<^verbatim>\<open>update_months_data\<close>
  builds them, and \<open>dispositions\<close> lists, for one \<^verbatim>\<open>complaint_id\<close>, every disposition that
  the frames give it.
\<close>

definition frames_of_run ::
  "(int list \<Rightarrow> int list) \<Rightarrow> complaint list list \<Rightarrow> int \<Rightarrow> int \<Rightarrow> int \<Rightarrow> int \<Rightarrow> stored list
     \<Rightarrow> stored list \<times> stored list \<times> stored list" where
  "frames_of_run set_iter reader date_month_ago now1 now2 now3 table =
     (let new_entries = \<lparr>new_rows = snapshot reader date_month_ago, already_saved = None\<rparr>;
          entries_from_db = \<lparr>db_rows = prior set_iter table date_month_ago, was_removed = None\<rparr>;
          (new_entries, new) = save_new_entries_frame now1 new_entries entries_from_db;
          (entries_from_db, removed) =
             delete_disappeared_entries_frame now2 new_entries entries_from_db;
          changed = (case update_changed_entries_frame now3 new_entries entries_from_db of
                       Inl e \<Rightarrow> [] | Inr df_to_save \<Rightarrow> df_to_save)
      in (new, removed, changed))"

datatype disposition = NEW | REMOVED | CHANGED | UNCHANGED

definition ids :: "'a complaint_scheme list \<Rightarrow> int set" where
  "ids df = set (map complaint_id df)"

definition dispositions :: "stored list \<times> stored list \<times> stored list \<Rightarrow> int \<Rightarrow> disposition list" where
  "dispositions frames e =
     (case frames of (new, removed, changed) \<Rightarrow>
        (if e \<in> ids new then [NEW] else []) @
        (if e \<in> ids removed then [REMOVED] else []) @
        (if e \<in> ids changed then [CHANGED] else []) @
        (if e \<notin> ids new \<and> e \<notin> ids removed \<and> e \<notin> ids changed then [UNCHANGED] else []))"

text \<open>
  A tombstone, in the words of \<^verbatim>\<open>delete_disappeared_entries\<close>: a row that has only
  \<^verbatim>\<open>complaint_id\<close>, \<^verbatim>\<open>date_received\<close> and \<^verbatim>\<open>update_stamp\<close>, all its other columns being NULL.
\<close>

definition tombstone :: "'a complaint_scheme \<Rightarrow> bool" where
  "tombstone r \<longleftrightarrow> product r = NULL \<and> list_all (\<lambda>c. c = NULL) (other_columns r)"

text \<open>
  What the model asks of the iteration order of a Python set: every element of the list the
  set was built from, once.
\<close>

definition set_iteration :: "(int list \<Rightarrow> int list) \<Rightarrow> bool" where
  "set_iteration set_iter \<longleftrightarrow> (\<forall>xs. distinct (set_iter xs) \<and> set (set_iter xs) = set xs)"

text \<open>
  The latest rows of a frame: a row is latest when no row of its \<^verbatim>\<open>complaint_id\<close> has a
  later \<^verbatim>\<open>update_stamp\<close>.
\<close>

definition is_latest :: "stored list \<Rightarrow> stored \<Rightarrow> bool" where
  "is_latest df r \<longleftrightarrow>
     r \<in> set df \<and> (\<forall>q\<in>set df. complaint_id q = complaint_id r \<longrightarrow> update_stamp q \<le> update_stamp r)"

text \<open>
  The set \<^verbatim>\<open>updated_row_ids\<close> of \<^verbatim>\<open>update_changed_entries\<close>, as a function of the rows of
  the two dataframes.
\<close>

definition updated_row_ids :: "complaint list \<Rightarrow> stored list \<Rightarrow> int set" where
  "updated_row_ids S P =
     ids (drop_duplicates_keep_False id
            (filter (\<lambda>r. complaint_id r \<in> ids P) S @
             map drop_update_stamp (filter (\<lambda>r. complaint_id r \<in> ids S) P)))"

section \<open>Example data\<close>

text \<open>Rows and tables for the concrete runs below.\<close>

definition mortgage_4 :: complaint where
  "mortgage_4 = \<lparr>complaint_id = 4, date_received = Some 5, product = TEXT ''Mortgage'',
                  other_columns = [TEXT ''CA'']\<rparr>"

definition mortgage_4_again :: complaint where
  "mortgage_4_again = \<lparr>complaint_id = 4, date_received = Some 5, product = TEXT ''Mortgage'',
                        other_columns = [TEXT ''TX'']\<rparr>"

definition loan_7 :: complaint where
  "loan_7 = \<lparr>complaint_id = 7, date_received = Some 5, product = TEXT ''Student loan'',
              other_columns = [TEXT ''NY'']\<rparr>"

definition card_9 :: complaint where
  "card_9 = \<lparr>complaint_id = 9, date_received = Some 6, product = TEXT ''Credit card'',
              other_columns = [TEXT ''WA'']\<rparr>"

definition loan_7_removed :: stored where
  "loan_7_removed =
     set_update_stamp 2 (only_complaint_id_and_date_received (set_update_stamp 1 loan_7))"



section \<open>Basic facts about the frames and the run\<close>

lemma boolean_index_map: "boolean_index xs (map f xs) = filter f xs"
  unfolding boolean_index_def by (induction xs) auto

lemma map_boolean_index: "map f (boolean_index xs bs) = boolean_index (map f xs) bs"
  unfolding boolean_index_def
proof (induction xs arbitrary: bs)
  case Nil
  show ?case by simp
next
  case (Cons x xs)
  show ?case by (cases bs) (use Cons.IH in auto)
qed

lemma ids_image: "ids df = complaint_id ` set df"
  by (simp add: ids_def)

lemma save_new_entries_frame_eq:
  "save_new_entries_frame now new_entries entries_from_db =
     (new_entries\<lparr>already_saved :=
        Some (map (\<lambda>r. complaint_id r \<in> ids (db_rows entries_from_db)) (new_rows new_entries))\<rparr>,
      map (set_update_stamp now)
        (filter (\<lambda>r. complaint_id r \<notin> ids (db_rows entries_from_db)) (new_rows new_entries)))"
  by (simp add: save_new_entries_frame_def Let_def isin_def boolean_index_map o_def ids_def)

lemma delete_disappeared_entries_frame_eq:
  "delete_disappeared_entries_frame now new_entries entries_from_db =
     (entries_from_db\<lparr>was_removed :=
        Some (map (\<lambda>r. complaint_id r \<notin> ids (new_rows new_entries)) (db_rows entries_from_db))\<rparr>,
      map (\<lambda>r. set_update_stamp now (only_complaint_id_and_date_received r))
        (filter (\<lambda>r. complaint_id r \<notin> ids (new_rows new_entries) \<and> product r \<noteq> NULL)
           (db_rows entries_from_db)))"
  by (simp add: delete_disappeared_entries_frame_def Let_def isin_def boolean_index_map o_def
      ids_def conj_commute)

lemma drop_update_stamp_set_update_stamp [simp]:
  "drop_update_stamp (set_update_stamp now r) = r"
  by (simp add: drop_update_stamp_def set_update_stamp_def)

lemma set_update_stamp_sel [simp]:
  "complaint_id (set_update_stamp now r) = complaint_id r"
  "date_received (set_update_stamp now r) = date_received r"
  "product (set_update_stamp now r) = product r"
  "other_columns (set_update_stamp now r) = other_columns r"
  "update_stamp (set_update_stamp now r) = now"
  by (simp_all add: set_update_stamp_def)

lemma drop_update_stamp_sel [simp]:
  "complaint_id (drop_update_stamp r) = complaint_id r"
  "date_received (drop_update_stamp r) = date_received r"
  "product (drop_update_stamp r) = product r"
  "other_columns (drop_update_stamp r) = other_columns r"
  by (simp_all add: drop_update_stamp_def)

lemma only_complaint_id_and_date_received_sel [simp]:
  "complaint_id (only_complaint_id_and_date_received r) = complaint_id r"
  "date_received (only_complaint_id_and_date_received r) = date_received r"
  "product (only_complaint_id_and_date_received r) = NULL"
  "other_columns (only_complaint_id_and_date_received r) = map (\<lambda>_. NULL) (other_columns r)"
  by (simp_all add: only_complaint_id_and_date_received_def)

lemma update_changed_entries_frame_eq:
  "update_changed_entries_frame now
      \<lparr>new_rows = S, already_saved = Some (map f S)\<rparr>
      \<lparr>db_rows = P, was_removed = Some (map g P)\<rparr> =
     Inr (filter (\<lambda>r. complaint_id r \<in>
            ids (drop_duplicates_keep_False id
                  (filter f S @ map drop_update_stamp (filter (\<lambda>r. \<not> g r) P))))
          (map (set_update_stamp now) (filter f S)))"
  by (simp add: update_changed_entries_frame_def Let_def boolean_index_map o_def ids_def)

lemma frames_of_run_eq:
  "frames_of_run set_iter reader date_month_ago now1 now2 now3 table =
     (let S = snapshot reader date_month_ago; P = prior set_iter table date_month_ago;
          both = filter (\<lambda>r. complaint_id r \<in> ids P) S
      in (map (set_update_stamp now1) (filter (\<lambda>r. complaint_id r \<notin> ids P) S),
          map (\<lambda>r. set_update_stamp now2 (only_complaint_id_and_date_received r))
            (filter (\<lambda>r. complaint_id r \<notin> ids S \<and> product r \<noteq> NULL) P),
          filter (\<lambda>r. complaint_id r \<in>
                    ids (drop_duplicates_keep_False id
                          (both @ map drop_update_stamp
                                    (filter (\<lambda>r. complaint_id r \<in> ids S) P))))
            (map (set_update_stamp now3) both)))"
  by (simp add: frames_of_run_def Let_def save_new_entries_frame_eq
      delete_disappeared_entries_frame_eq
      update_changed_entries_frame_eq)



lemma to_sql_Inr:
  "to_sql df table = Inr table' \<longleftrightarrow>
     distinct (map primary_key df) \<and> primary_key ` set df \<inter> primary_key ` set table = {} \<and>
     table' = table @ df"
  by (auto simp: to_sql_def)

lemma to_sql_Inl:
  "to_sql df table = Inl e \<longleftrightarrow>
     e = IntegrityError \<and>
     \<not> (distinct (map primary_key df) \<and> primary_key ` set df \<inter> primary_key ` set table = {})"
  by (auto simp: to_sql_def)

lemma update_months_data_eq:
  "update_months_data set_iter reader date_month_ago now1 now2 now3 table =
     (case frames_of_run set_iter reader date_month_ago now1 now2 now3 table of
        (new, removed, changed) \<Rightarrow>
          (case to_sql new table of
             Inl e \<Rightarrow> (Some e, table)
           | Inr table1 \<Rightarrow>
               (case to_sql removed table1 of
                  Inl e \<Rightarrow> (Some e, table1)
                | Inr table2 \<Rightarrow>
                    (case to_sql changed table2 of
                       Inl e \<Rightarrow> (Some e, table2)
                     | Inr table3 \<Rightarrow> (None, table3)))))"
  by (simp add: update_months_data_def frames_of_run_eq Let_def save_new_entries_def
      delete_disappeared_entries_def update_changed_entries_def save_new_entries_frame_eq
      delete_disappeared_entries_frame_eq update_changed_entries_frame_eq
      split: sum.splits)

lemma to_sql_InrD: "to_sql df table = Inr table' \<Longrightarrow> table' = table @ df"
  by (simp add: to_sql_Inr)

lemma to_sql_InlD: "to_sql df table = Inl e \<Longrightarrow> e = IntegrityError"
  by (simp add: to_sql_Inl)

lemma update_months_data_cases:
  assumes run: "update_months_data set_iter reader date_month_ago now1 now2 now3 table = (err, table')"
    and frames: "frames_of_run set_iter reader date_month_ago now1 now2 now3 table = (new, removed, changed)"
  shows "(err = Some IntegrityError \<and> table' = table \<and> to_sql new table = Inl IntegrityError) \<or>
         (err = Some IntegrityError \<and> table' = table @ new \<and> to_sql new table = Inr table' \<and>
            to_sql removed table' = Inl IntegrityError) \<or>
         (err = Some IntegrityError \<and> table' = table @ new @ removed \<and>
            to_sql new table = Inr (table @ new) \<and> to_sql removed (table @ new) = Inr table' \<and>
            to_sql changed table' = Inl IntegrityError) \<or>
         (err = None \<and> table' = table @ new @ removed @ changed \<and>
            to_sql new table = Inr (table @ new) \<and>
            to_sql removed (table @ new) = Inr (table @ new @ removed) \<and>
            to_sql changed (table @ new @ removed) = Inr table')"
proof (cases "to_sql new table")
  case (Inl e)
  with run frames to_sql_InlD [OF Inl] show ?thesis
    by (simp add: update_months_data_eq)
next
  case new_ok: (Inr table1)
  note t1 = to_sql_InrD [OF new_ok]
  show ?thesis
  proof (cases "to_sql removed table1")
    case (Inl e)
    with run frames new_ok t1 to_sql_InlD [OF Inl] show ?thesis
      by (simp add: update_months_data_eq)
  next
    case removed_ok: (Inr table2)
    note t2 = to_sql_InrD [OF removed_ok]
    show ?thesis
    proof (cases "to_sql changed table2")
      case (Inl e)
      with run frames new_ok removed_ok t1 t2 to_sql_InlD [OF Inl] show ?thesis
        by (simp add: update_months_data_eq)
    next
      case changed_ok: (Inr table3)
      with run frames new_ok removed_ok t1 t2 to_sql_InrD [OF changed_ok] show ?thesis
        by (simp add: update_months_data_eq)
    qed
  qed
qed

lemma frames_of_run_stamps:
  assumes "frames_of_run set_iter reader date_month_ago now1 now2 now3 table = (new, removed, changed)"
  shows "(\<forall>r\<in>set new. update_stamp r = now1) \<and> (\<forall>r\<in>set removed. update_stamp r = now2) \<and>
         (\<forall>r\<in>set changed. update_stamp r = now3)"
  using assms by (auto simp: frames_of_run_eq Let_def)

lemma set_fold_append_subset:
  assumes "\<And>i. set (g i) \<subseteq> A" and "set acc \<subseteq> A"
  shows "set (fold (\<lambda>i acc. acc @ g i) is acc) \<subseteq> A"
  using assms(2) by (induction "is" arbitrary: acc) (use assms(1) in auto)

lemma leave_only_last_update_in_df_subset:
  "set (leave_only_last_update_in_df set_iter df) \<subseteq> set df"
  unfolding leave_only_last_update_in_df_def Let_def
  by (rule set_fold_append_subset) (auto simp: drop_duplicates_keep_False_def)

lemma prior_received:
  assumes "p \<in> set (prior set_iter table date_month_ago)"
  shows "p \<in> set table \<and> received_after (strftime_seconds date_month_ago) p"
  using assms leave_only_last_update_in_df_subset
  by (fastforce simp: prior_def get_entries_received_after_chosen_datetime_def Let_def)

lemma received_after_Some: "received_after t r \<Longrightarrow> date_received r \<noteq> None"
  by (auto simp: received_after_def split: option.splits)

lemma ids_simps [simp]:
  "ids [] = {}"
  "ids (xs @ ys) = ids xs \<union> ids ys"
  "ids (map (set_update_stamp t) zs) = ids zs"
  "ids (map drop_update_stamp xs) = ids xs"
  "ids (map only_complaint_id_and_date_received xs) = ids xs"
  "ids (map (set_update_stamp t \<circ> only_complaint_id_and_date_received) xs) = ids xs"
  "ids (map (\<lambda>r. set_update_stamp t (only_complaint_id_and_date_received r)) xs) = ids xs"
  by (auto simp: ids_def)

lemma ids_filter: "ids (filter Q xs) = {complaint_id r | r. r \<in> set xs \<and> Q r}"
  by (auto simp: ids_def)

lemma frames_of_run_shape:
  assumes "frames_of_run set_iter reader date_month_ago now1 now2 now3 table = (new, removed, changed)"
  obtains Q where
    "new = map (set_update_stamp now1)
       (filter (\<lambda>r. complaint_id r \<notin> ids (prior set_iter table date_month_ago))
          (snapshot reader date_month_ago))"
    "removed = map (set_update_stamp now2) (map only_complaint_id_and_date_received
       (filter (\<lambda>r. complaint_id r \<notin> ids (snapshot reader date_month_ago) \<and> product r \<noteq> NULL)
          (prior set_iter table date_month_ago)))"
    "changed = filter Q (map (set_update_stamp now3)
       (filter (\<lambda>r. complaint_id r \<in> ids (prior set_iter table date_month_ago))
          (snapshot reader date_month_ago)))"
proof -
  from assms have eq: "(new, removed, changed) =
      frames_of_run set_iter reader date_month_ago now1 now2 now3 table"
    by simp
  show thesis
    by (rule that) (use eq in \<open>simp_all add: frames_of_run_eq Let_def\<close>)
qed

lemma frames_of_run_ids:
  assumes "frames_of_run set_iter reader date_month_ago now1 now2 now3 table = (new, removed, changed)"
  shows "ids new \<subseteq> ids (snapshot reader date_month_ago) - ids (prior set_iter table date_month_ago)"
    and "ids removed \<subseteq> ids (prior set_iter table date_month_ago) - ids (snapshot reader date_month_ago)"
    and "ids changed \<subseteq> ids (snapshot reader date_month_ago) \<inter> ids (prior set_iter table date_month_ago)"
proof -
  from assms obtain Q where sh:
    "new = map (set_update_stamp now1)
       (filter (\<lambda>r. complaint_id r \<notin> ids (prior set_iter table date_month_ago))
          (snapshot reader date_month_ago))"
    "removed = map (set_update_stamp now2) (map only_complaint_id_and_date_received
       (filter (\<lambda>r. complaint_id r \<notin> ids (snapshot reader date_month_ago) \<and> product r \<noteq> NULL)
          (prior set_iter table date_month_ago)))"
    "changed = filter Q (map (set_update_stamp now3)
       (filter (\<lambda>r. complaint_id r \<in> ids (prior set_iter table date_month_ago))
          (snapshot reader date_month_ago)))"
    by (rule frames_of_run_shape)
  show "ids new \<subseteq> ids (snapshot reader date_month_ago) - ids (prior set_iter table date_month_ago)"
    unfolding sh(1) by (force simp: ids_def)
  show "ids removed \<subseteq> ids (prior set_iter table date_month_ago) - ids (snapshot reader date_month_ago)"
    unfolding sh(2) by (force simp: ids_def)
  show "ids changed \<subseteq> ids (snapshot reader date_month_ago) \<inter> ids (prior set_iter table date_month_ago)"
    unfolding sh(3) by (force simp: ids_def)
qed

lemma dispositions_single:
  assumes "ids new \<inter> ids removed = {}" "ids new \<inter> ids changed = {}" "ids removed \<inter> ids changed = {}"
  shows "\<exists>d. dispositions (new, removed, changed) e = [d]"
  using assms by (auto simp: dispositions_def)

lemma dispositions_UNCHANGED:
  "dispositions (new, removed, changed) e = [UNCHANGED] \<longleftrightarrow>
     e \<notin> ids new \<and> e \<notin> ids removed \<and> e \<notin> ids changed"
  by (auto simp: dispositions_def)

lemma distinct_ids_of_one_stamp:
  assumes "distinct (map primary_key df)" and "\<forall>r\<in>set df. update_stamp r = t"
  shows "distinct (map complaint_id df)"
proof -
  have "inj_on primary_key (set df)" and "distinct df"
    using assms(1) by (simp_all add: distinct_map)
  moreover have "inj_on complaint_id (set df)"
  proof (rule inj_onI)
    fix a b assume "a \<in> set df" "b \<in> set df" "complaint_id a = complaint_id b"
    with assms(2) have "primary_key a = primary_key b"
      by (simp add: primary_key_def)
    with \<open>inj_on primary_key (set df)\<close> \<open>a \<in> set df\<close> \<open>b \<in> set df\<close> show "a = b"
      by (auto dest: inj_onD)
  qed
  ultimately show ?thesis
    by (simp add: distinct_map)
qed

lemma to_sql_distinct_ids:
  assumes "to_sql df table = Inr table'" and "\<forall>r\<in>set df. update_stamp r = t"
  shows "distinct (map complaint_id df)"
  using assms distinct_ids_of_one_stamp by (auto simp: to_sql_Inr)

lemma update_months_data_appended:
  assumes run: "update_months_data set_iter reader date_month_ago now1 now2 now3 table = (err, table')"
    and frames: "frames_of_run set_iter reader date_month_ago now1 now2 now3 table = (new, removed, changed)"
  shows "\<exists>appended. table' = table @ appended \<and> distinct (map complaint_id appended) \<and>
           ids appended \<subseteq> ids new \<union> ids removed \<union> ids changed \<and>
           (err = None \<longrightarrow> appended = new @ removed @ changed)"
proof -
  note st = frames_of_run_stamps [OF frames]
  note fi = frames_of_run_ids [OF frames]
  have disj: "ids new \<inter> ids removed = {}" "ids new \<inter> ids changed = {}"
    "ids removed \<inter> ids changed = {}"
    using fi by auto
  from update_months_data_cases [OF run frames]
  consider (a) "table' = table" "err = Some IntegrityError"
    | (b) "table' = table @ new" "to_sql new table = Inr table'" "err = Some IntegrityError"
    | (c) "table' = table @ new @ removed" "to_sql new table = Inr (table @ new)"
        "to_sql removed (table @ new) = Inr table'" "err = Some IntegrityError"
    | (d) "table' = table @ new @ removed @ changed" "to_sql new table = Inr (table @ new)"
        "to_sql removed (table @ new) = Inr (table @ new @ removed)"
        "to_sql changed (table @ new @ removed) = Inr table'"
    by auto
  then show ?thesis
  proof cases
    case a
    then show ?thesis by (intro exI [of _ "[]"]) simp
  next
    case b
    have "distinct (map complaint_id new)"
      using to_sql_distinct_ids [OF b(2)] st by blast
    with b show ?thesis by (intro exI [of _ new]) auto
  next
    case c
    have "distinct (map complaint_id new)" "distinct (map complaint_id removed)"
      using to_sql_distinct_ids [OF c(2)] to_sql_distinct_ids [OF c(3)] st by blast+
    with c disj show ?thesis
      by (intro exI [of _ "new @ removed"]) (auto simp: ids_def)
  next
    case d
    have d': "to_sql changed (table @ new @ removed) = Inr (table @ new @ removed @ changed)"
      using d(1,4) by simp
    have "distinct (map complaint_id new)" "distinct (map complaint_id removed)"
      "distinct (map complaint_id changed)"
      using to_sql_distinct_ids [OF d(2)] to_sql_distinct_ids [OF d(3)]
        to_sql_distinct_ids [OF d'] st by blast+
    with d disj show ?thesis
      by (intro exI [of _ "new @ removed @ changed"]) (auto simp: ids_def)
  qed
qed

section \<open>Facts about the resolver\<close>

lemma fold_append_concat: "fold (\<lambda>i acc. acc @ g i) is acc = acc @ concat (map g is)"
  by (induction "is" arbitrary: acc) simp_all

lemma boolean_index_Cons [simp]:
  "boolean_index (x # xs) (b # bs) = (if b then x # boolean_index xs bs else boolean_index xs bs)"
  by (simp add: boolean_index_def)

lemma boolean_index_Nil [simp]: "boolean_index [] bs = []"
  by (simp add: boolean_index_def)

lemma set_duplicated_from:
  "set (boolean_index ys (duplicated_from seen ys)) =
     {y \<in> set ys. y \<in> set seen \<or> count_list ys y \<ge> 2}"
proof (induction ys arbitrary: seen)
  case Nil
  show ?case by simp
next
  case (Cons y ys)
  have "y \<in> set ys \<longleftrightarrow> count_list ys y \<ge> 1"
    using count_list_0_iff [of ys y] by auto
  then show ?case
    by (auto simp: Cons.IH)
qed

lemma non_unique_ids:
  "set (map complaint_id (boolean_index df (duplicated (map complaint_id df)))) =
     {i. count_list (map complaint_id df) i \<ge> 2}"
proof -
  have "count_list (map complaint_id df) i \<ge> 2 \<Longrightarrow> i \<in> complaint_id ` set df" for i
    using count_list_0_iff [of "map complaint_id df" i] by auto
  then show ?thesis
    by (auto simp: map_boolean_index duplicated_def set_duplicated_from)
qed

lemma series_max_eq:
  "xs \<noteq> [] \<Longrightarrow> series_max xs = Some (Max (set xs))"
proof (cases xs)
  case Nil
  assume "xs \<noteq> []"
  with Nil show ?thesis by simp
next
  case (Cons a list)
  have "fold max list a = Max (set (a # list))"
    by (rule Max.set_eq_fold [symmetric])
  then show ?thesis
    by (simp add: Cons series_max_def)
qed

lemma latest_of_this_id:
  assumes "i \<in> ids df"
  shows "set (filter (\<lambda>r. Some (update_stamp r) =
                 series_max (map update_stamp (filter (\<lambda>r. complaint_id r = i) df)))
            (filter (\<lambda>r. complaint_id r = i) df)) =
         {r. is_latest df r \<and> complaint_id r = i}"
proof -
  let ?rows = "filter (\<lambda>r. complaint_id r = i) df"
  let ?A = "update_stamp ` set ?rows"
  from assms have ne: "?rows \<noteq> []"
    by (auto simp: ids_def filter_empty_conv)
  then have fin: "finite ?A" "?A \<noteq> {}" by (auto simp: filter_empty_conv)
  have sm: "series_max (map update_stamp ?rows) = Some (Max ?A)"
    using series_max_eq [of "map update_stamp ?rows"] ne by simp
  have "r \<in> set ?rows \<and> update_stamp r = Max ?A \<longleftrightarrow> is_latest df r \<and> complaint_id r = i" for r
  proof
    assume a: "r \<in> set ?rows \<and> update_stamp r = Max ?A"
    then have "\<forall>q\<in>set ?rows. update_stamp q \<le> update_stamp r"
      using Max_ge [OF fin(1)] by auto
    with a show "is_latest df r \<and> complaint_id r = i"
      by (auto simp: is_latest_def)
  next
    assume a: "is_latest df r \<and> complaint_id r = i"
    then have r: "r \<in> set ?rows" by (auto simp: is_latest_def)
    have "Max ?A = update_stamp r"
    proof (rule Max_eqI [OF fin(1)])
      show "update_stamp r \<in> ?A" using r by blast
      fix y assume "y \<in> ?A"
      with a show "y \<le> update_stamp r" by (auto simp: is_latest_def)
    qed
    with r show "r \<in> set ?rows \<and> update_stamp r = Max ?A" by simp
  qed
  then show ?thesis
    unfolding sm by auto
qed

lemma count_list_one_unique:
  assumes "count_list (map k xs) (k r) = 1" "r \<in> set xs" "q \<in> set xs" "k q = k r"
  shows "q = r"
  using assms
proof (induction xs)
  case Nil
  then show ?case by simp
next
  case (Cons x xs)
  have z: "False" if "count_list (map k xs) c = 0" "y \<in> set xs" "k y = c" for c y
    using that count_list_0_iff [of "map k xs" c] by auto
  from Cons show ?case
    by (auto split: if_splits dest: z)
qed

lemma count_list_ge_two:
  assumes "r \<in> set xs" "count_list (map k xs) (k r) \<noteq> 1"
  shows "count_list (map k xs) (k r) \<ge> 2"
proof -
  have "count_list (map k xs) (k r) \<noteq> 0"
    using assms(1) count_list_0_iff [of "map k xs" "k r"] by auto
  with assms(2) show ?thesis by arith
qed

lemma set_leave_only_last_update_in_df:
  assumes "set_iteration set_iter"
  shows "set (leave_only_last_update_in_df set_iter df) = {r. is_latest df r}"
proof -
  let ?D = "{i. count_list (map complaint_id df) i \<ge> 2}"
  let ?g = "\<lambda>i. filter (\<lambda>r. Some (update_stamp r) =
                 series_max (map update_stamp (filter (\<lambda>r. complaint_id r = i) df)))
            (filter (\<lambda>r. complaint_id r = i) df)"
  let ?is = "set_iter (map complaint_id (boolean_index df (duplicated (map complaint_id df))))"
  have iter: "set ?is = ?D"
    using assms non_unique_ids [of df] by (simp add: set_iteration_def)
  have D_ids: "i \<in> ?D \<Longrightarrow> i \<in> ids df" for i
    using count_list_0_iff [of "map complaint_id df" i] by (auto simp: ids_def)
  have eq: "leave_only_last_update_in_df set_iter df =
      drop_duplicates_keep_False complaint_id df @ concat (map ?g ?is)"
    by (simp add: leave_only_last_update_in_df_def Let_def fold_append_concat)
  have "set (concat (map ?g ?is)) = (\<Union>i\<in>?D. set (?g i))"
    by (simp add: iter)
  also have "\<dots> = (\<Union>i\<in>?D. {r. is_latest df r \<and> complaint_id r = i})"
    by (rule SUP_cong [OF refl]) (use latest_of_this_id [OF D_ids] in blast)
  also have "\<dots> = {r. is_latest df r \<and> complaint_id r \<in> ?D}"
    by auto
  finally have "set (concat (map ?g ?is)) = {r. is_latest df r \<and> complaint_id r \<in> ?D}" .
  moreover have "set (drop_duplicates_keep_False complaint_id df) =
      {r. is_latest df r \<and> count_list (map complaint_id df) (complaint_id r) = 1}"
    using count_list_one_unique [of complaint_id df]
    by (auto simp: drop_duplicates_keep_False_def is_latest_def)
  moreover have "is_latest df r \<Longrightarrow>
      count_list (map complaint_id df) (complaint_id r) = 1 \<or> complaint_id r \<in> ?D" for r
    using count_list_ge_two [of r df complaint_id] by (auto simp: is_latest_def)
  ultimately show ?thesis
    unfolding eq by auto
qed


lemma count_list_map_filter_le:
  "count_list (map k (filter Q xs)) a \<le> count_list (map k xs) a"
  by (induction xs) auto

lemma distinct_count_list_le:
  assumes "\<And>a. count_list xs a \<le> 1"
  shows "distinct xs"
  using assms
proof (induction xs)
  case Nil
  show ?case by simp
next
  case (Cons x xs)
  have "count_list xs x = 0"
    using Cons.prems [of x] by simp
  then have "x \<notin> set xs"
    by (simp add: count_list_0_iff)
  moreover have "count_list xs a \<le> 1" for a
    using Cons.prems [of a] by (simp split: if_splits)
  ultimately show ?case
    using Cons.IH by simp
qed

lemma count_list_distinct:
  "distinct xs \<Longrightarrow> count_list xs a = (if a \<in> set xs then 1 else 0)"
  by (induction xs) auto

lemma distinct_map_filter_count:
  assumes "\<And>r. r \<in> set xs \<Longrightarrow> Q r \<Longrightarrow> count_list (map k xs) (k r) = 1"
  shows "distinct (map k (filter Q xs))"
proof (rule distinct_count_list_le)
  fix a
  show "count_list (map k (filter Q xs)) a \<le> 1"
  proof (cases "a \<in> set (map k (filter Q xs))")
    case True
    then obtain r where r: "r \<in> set xs" "Q r" "a = k r" by auto
    show ?thesis
      using count_list_map_filter_le [of k Q xs a] assms [OF r(1,2)] r(3) by simp
  next
    case False
    then show ?thesis by simp
  qed
qed

lemma filter_one_key:
  assumes "distinct (map k xs)" and "\<And>r. r \<in> set xs \<Longrightarrow> Q r \<Longrightarrow> k r = c"
  shows "length (filter Q xs) \<le> 1"
  using assms
proof (induction xs)
  case Nil
  show ?case by simp
next
  case (Cons x xs)
  show ?case
  proof (cases "Q x")
    case True
    have "filter Q xs = []"
    proof (rule ccontr)
      assume "filter Q xs \<noteq> []"
      then obtain y where y: "y \<in> set xs" "Q y"
        by (auto simp: filter_empty_conv)
      then have "k y = k x"
        using Cons.prems(2) [of y] Cons.prems(2) [of x] True by simp
      with y(1) Cons.prems(1) show False by (metis distinct.simps(2) imageI list.simps(9) set_map)
    qed
    with True show ?thesis by simp
  next
    case False
    with Cons show ?thesis by simp
  qed
qed

lemma ids_of_latest_of_this_id:
  assumes pk: "distinct (map primary_key df)" and i: "i \<in> ids df"
  shows "map complaint_id
           (filter (\<lambda>r. Some (update_stamp r) =
                 series_max (map update_stamp (filter (\<lambda>r. complaint_id r = i) df)))
              (filter (\<lambda>r. complaint_id r = i) df)) = [i]"
proof -
  let ?rows = "filter (\<lambda>r. complaint_id r = i) df"
  let ?m = "series_max (map update_stamp ?rows)"
  let ?g = "filter (\<lambda>r. Some (update_stamp r) = ?m) ?rows"
  have set_g: "set ?g = {r. is_latest df r \<and> complaint_id r = i}"
    by (rule latest_of_this_id [OF i])
  from i have "?rows \<noteq> []"
    by (auto simp: ids_def filter_empty_conv)
  then have fin: "finite (update_stamp ` set ?rows)" "update_stamp ` set ?rows \<noteq> {}"
    by (auto simp: filter_empty_conv)
  define t where "t = Max (update_stamp ` set ?rows)"
  have t: "?m = Some t"
    using series_max_eq [of "map update_stamp ?rows"] \<open>?rows \<noteq> []\<close> by (simp add: t_def)
  have "t \<in> update_stamp ` set ?rows"
    unfolding t_def by (rule Max_in [OF fin])
  then obtain r0 where "r0 \<in> set ?rows" "update_stamp r0 = t"
    by auto
  then have "r0 \<in> set ?g"
    unfolding t by simp
  then have "?g \<noteq> []"
    by (metis empty_iff empty_set)
  have "?g = filter (\<lambda>r. complaint_id r = i \<and> update_stamp r = t) df"
    unfolding t by (simp add: conj_commute eq_commute)
  moreover have "length (filter (\<lambda>r. complaint_id r = i \<and> update_stamp r = t) df) \<le> 1"
    by (rule filter_one_key [OF pk, where c = "(i, t)"]) (simp add: primary_key_def)
  ultimately have "length ?g \<le> 1" by simp
  with \<open>?g \<noteq> []\<close> obtain r where r: "?g = [r]"
    by (cases ?g) auto
  then have "r \<in> set ?g" by simp
  then have "complaint_id r = i" unfolding set_g by simp
  with r show ?thesis by simp
qed

lemma map_concat_singletons:
  assumes "\<And>i. i \<in> set js \<Longrightarrow> map k (g i) = [i]"
  shows "map k (concat (map g js)) = js"
  using assms by (induction js) simp_all

lemma distinct_ids_leave_only_last_update_in_df:
  assumes it: "set_iteration set_iter" and pk: "distinct (map primary_key df)"
  shows "distinct (map complaint_id (leave_only_last_update_in_df set_iter df))"
proof -
  let ?D = "{i. count_list (map complaint_id df) i \<ge> 2}"
  let ?g = "\<lambda>i. filter (\<lambda>r. Some (update_stamp r) =
                 series_max (map update_stamp (filter (\<lambda>r. complaint_id r = i) df)))
            (filter (\<lambda>r. complaint_id r = i) df)"
  let ?is = "set_iter (map complaint_id (boolean_index df (duplicated (map complaint_id df))))"
  have iter: "set ?is = ?D" "distinct ?is"
    using it non_unique_ids [of df] by (simp_all add: set_iteration_def)
  have D_ids: "i \<in> ?D \<Longrightarrow> i \<in> ids df" for i
    using count_list_0_iff [of "map complaint_id df" i] by (auto simp: ids_def)
  have eq: "leave_only_last_update_in_df set_iter df =
      drop_duplicates_keep_False complaint_id df @ concat (map ?g ?is)"
    by (simp add: leave_only_last_update_in_df_def Let_def fold_append_concat)
  have ids_rest: "map complaint_id (concat (map ?g ?is)) = ?is"
    by (rule map_concat_singletons) (use ids_of_latest_of_this_id [OF pk D_ids] iter(1) in blast)
  have "distinct (map complaint_id (drop_duplicates_keep_False complaint_id df))"
    unfolding drop_duplicates_keep_False_def by (rule distinct_map_filter_count) simp
  moreover have "set (map complaint_id (drop_duplicates_keep_False complaint_id df)) \<inter> ?D = {}"
    by (auto simp: drop_duplicates_keep_False_def)
  moreover have "map complaint_id (leave_only_last_update_in_df set_iter df) =
      map complaint_id (drop_duplicates_keep_False complaint_id df) @ ?is"
    unfolding eq by (simp only: map_append ids_rest)
  ultimately show ?thesis
    by (simp only: distinct_append iter)
qed

lemma ids_latest:
  "complaint_id ` {r. is_latest df r} = complaint_id ` set df"
proof
  show "complaint_id ` {r. is_latest df r} \<subseteq> complaint_id ` set df"
    by (auto simp: is_latest_def)
  show "complaint_id ` set df \<subseteq> complaint_id ` {r. is_latest df r}"
  proof
    fix i assume "i \<in> complaint_id ` set df"
    then have i: "i \<in> ids df" by (simp add: ids_def)
    let ?rows = "filter (\<lambda>r. complaint_id r = i) df"
    have fin: "finite (update_stamp ` set ?rows)" "update_stamp ` set ?rows \<noteq> {}"
      using i by (auto simp: ids_def)
    from Max_in [OF fin] obtain r where r: "r \<in> set ?rows"
      "update_stamp r = Max (update_stamp ` set ?rows)"
      by (metis (no_types, lifting) imageE)
    have "is_latest df r"
      unfolding is_latest_def
    proof (intro conjI ballI impI)
      show "r \<in> set df" using r(1) by simp
      fix q assume "q \<in> set df" "complaint_id q = complaint_id r"
      then have "update_stamp q \<in> update_stamp ` set ?rows"
        using r(1) by auto
      then show "update_stamp q \<le> update_stamp r"
        unfolding r(2) by (rule Max_ge [OF fin(1)])
    qed
    with r(1) show "i \<in> complaint_id ` {r. is_latest df r}" by auto
  qed
qed

section \<open>Facts about changed and unchanged entities\<close>

lemma distinct_ids_prior:
  assumes "set_iteration set_iter" and "distinct (map primary_key table)"
  shows "distinct (map complaint_id (prior set_iter table date_month_ago))"
  unfolding prior_def Let_def get_entries_received_after_chosen_datetime_def
  by (rule distinct_ids_leave_only_last_update_in_df [OF assms(1)])
     (rule distinct_map_filter [OF assms(2)])

lemma distinct_ids_unique:
  assumes "distinct (map complaint_id df)" "r \<in> set df" "q \<in> set df"
    "complaint_id q = complaint_id r"
  shows "q = r"
  using assms by (meson distinct_map inj_onD)

lemma changed_frame:
  assumes "frames_of_run set_iter reader date_month_ago now1 now2 now3 table = (new, removed, changed)"
  shows "changed = map (set_update_stamp now3)
           (filter (\<lambda>r. complaint_id r \<in> ids (prior set_iter table date_month_ago) \<and>
                        complaint_id r \<in> updated_row_ids (snapshot reader date_month_ago)
                                           (prior set_iter table date_month_ago))
              (snapshot reader date_month_ago))"
  using assms
  by (auto simp: frames_of_run_eq Let_def updated_row_ids_def filter_map o_def conj_commute)

lemma updated_row_ids_iff:
  assumes S: "distinct (map complaint_id S)" and s: "s \<in> set S"
    and p: "p \<in> set P" "complaint_id p = complaint_id s"
    and only: "\<forall>q\<in>set P. complaint_id q = complaint_id s \<longrightarrow> q = p"
  shows "complaint_id s \<in> updated_row_ids S P \<longleftrightarrow> drop_update_stamp p \<noteq> s"
proof -
  define both where "both = filter (\<lambda>r. complaint_id r \<in> ids P) S"
  define kept where "kept = map drop_update_stamp (filter (\<lambda>r. complaint_id r \<in> ids S) P)"
  define L where "L = both @ kept"
  have dS: "distinct S" using S by (rule distinct_map [THEN iffD1, THEN conjunct1])
  have s_both: "s \<in> set both" using s p by (force simp: ids_def both_def)
  have c_both: "count_list both s = 1"
    using s_both dS by (simp add: count_list_distinct both_def)
  have p_kept: "drop_update_stamp p \<in> set kept"
    using s p by (force simp: ids_def kept_def)
  have count_L: "count_list L s = 1 + count_list kept s"
    using c_both by (simp add: L_def)
  have same_id: "x = s \<or> x = drop_update_stamp p" if "x \<in> set L" "complaint_id x = complaint_id s" for x
  proof -
    from that(1) consider "x \<in> set both" | "x \<in> set kept" by (auto simp: L_def)
    then show ?thesis
    proof cases
      case 1
      then have "x \<in> set S" by (simp add: both_def)
      with distinct_ids_unique [OF S s this] that(2) show ?thesis by simp
    next
      case 2
      then obtain q where "q \<in> set P" "x = drop_update_stamp q" by (auto simp: kept_def)
      with only that(2) show ?thesis by auto
    qed
  qed
  have "updated_row_ids S P = ids (filter (\<lambda>x. count_list L x = 1) L)"
    by (simp add: updated_row_ids_def drop_duplicates_keep_False_def L_def both_def kept_def)
  then have ids_dd: "complaint_id s \<in> updated_row_ids S P \<longleftrightarrow>
      (\<exists>x\<in>set L. count_list L x = 1 \<and> complaint_id x = complaint_id s)"
    unfolding ids_filter by (simp only: mem_Collect_eq) metis
  show ?thesis
  proof (cases "drop_update_stamp p = s")
    case True
    have "count_list kept s \<noteq> 0"
      using p_kept True by (simp add: count_list_0_iff)
    then have "count_list L s \<noteq> 1"
      using count_L by simp
    then have "\<not> (\<exists>x\<in>set L. count_list L x = 1 \<and> complaint_id x = complaint_id s)"
      using same_id True by auto
    with True show ?thesis by (simp add: ids_dd)
  next
    case False
    have "s \<notin> set kept"
    proof
      assume "s \<in> set kept"
      then obtain q where "q \<in> set P" "s = drop_update_stamp q" by (auto simp: kept_def)
      with only False show False by auto
    qed
    then have "count_list L s = 1"
      using count_L by simp
    moreover have "s \<in> set L" using s_both by (simp add: L_def)
    ultimately have "\<exists>x\<in>set L. count_list L x = 1 \<and> complaint_id x = complaint_id s"
      by auto
    with False show ?thesis by (simp add: ids_dd)
  qed
qed

lemma tombstone_drop_update_stamp [simp]: "tombstone (drop_update_stamp p) = tombstone p"
  by (simp add: tombstone_def)

lemma changed_or_unchanged:
  assumes it: "set_iteration set_iter" and pk: "distinct (map primary_key table)"
    and S: "distinct (map complaint_id (snapshot reader date_month_ago))"
    and frames: "frames_of_run set_iter reader date_month_ago now1 now2 now3 table =
                   (new, removed, changed)"
    and s: "s \<in> set (snapshot reader date_month_ago)"
    and p: "p \<in> set (prior set_iter table date_month_ago)" "complaint_id p = complaint_id s"
  shows "complaint_id s \<notin> ids new" "complaint_id s \<notin> ids removed"
    "\<forall>r\<in>set changed. complaint_id r = complaint_id s \<longrightarrow> r = set_update_stamp now3 s"
    "set_update_stamp now3 s \<in> set changed \<longleftrightarrow> drop_update_stamp p \<noteq> s"
    "complaint_id s \<in> ids changed \<longleftrightarrow> drop_update_stamp p \<noteq> s"
proof -
  let ?S = "snapshot reader date_month_ago" and ?P = "prior set_iter table date_month_ago"
  note fi = frames_of_run_ids [OF frames]
  have in_S: "complaint_id s \<in> ids ?S" and in_P: "complaint_id s \<in> ids ?P"
    using s p by (force simp: ids_def)+
  show "complaint_id s \<notin> ids new" "complaint_id s \<notin> ids removed"
    using fi in_S in_P by auto
  have only: "\<forall>q\<in>set ?P. complaint_id q = complaint_id s \<longrightarrow> q = p"
    using distinct_ids_unique [OF distinct_ids_prior [OF it pk] p(1)] p(2) by auto
  note upd = updated_row_ids_iff [OF S s p only]
  note ch = changed_frame [OF frames]
  show unique: "\<forall>r\<in>set changed. complaint_id r = complaint_id s \<longrightarrow> r = set_update_stamp now3 s"
    unfolding ch using distinct_ids_unique [OF S s] by auto
  show mem: "set_update_stamp now3 s \<in> set changed \<longleftrightarrow> drop_update_stamp p \<noteq> s"
  proof
    assume "set_update_stamp now3 s \<in> set changed"
    then obtain s' where s': "s' \<in> set ?S" "complaint_id s' \<in> updated_row_ids ?S ?P"
      "set_update_stamp now3 s' = set_update_stamp now3 s"
      unfolding ch by auto
    from s'(3) have "drop_update_stamp (set_update_stamp now3 s') =
        drop_update_stamp (set_update_stamp now3 s)"
      by simp
    then have "s' = s" by simp
    with s'(2) upd show "drop_update_stamp p \<noteq> s" by simp
  next
    assume "drop_update_stamp p \<noteq> s"
    with upd s in_P show "set_update_stamp now3 s \<in> set changed"
      unfolding ch by auto
  qed
  show "complaint_id s \<in> ids changed \<longleftrightarrow> drop_update_stamp p \<noteq> s"
  proof
    assume "complaint_id s \<in> ids changed"
    then obtain r where "r \<in> set changed" "complaint_id r = complaint_id s"
      by (auto simp: ids_def)
    with unique mem show "drop_update_stamp p \<noteq> s" by auto
  next
    assume "drop_update_stamp p \<noteq> s"
    with mem have "set_update_stamp now3 s \<in> set changed" by simp
    then have "complaint_id (set_update_stamp now3 s) \<in> ids changed"
      unfolding ids_def by (simp only: set_map) (rule imageI)
    then show "complaint_id s \<in> ids changed" by simp
  qed
qed

lemma snapshot_row_against_prior_row:
  assumes it: "set_iteration set_iter" and pk: "distinct (map primary_key table)"
    and S: "distinct (map complaint_id (snapshot reader date_month_ago))"
    and run: "update_months_data set_iter reader date_month_ago now1 now2 now3 table = (err, table')"
    and frames: "frames_of_run set_iter reader date_month_ago now1 now2 now3 table =
                   (new, removed, changed)"
    and s: "s \<in> set (snapshot reader date_month_ago)"
    and p: "p \<in> set (prior set_iter table date_month_ago)" "complaint_id p = complaint_id s"
  shows "(drop_update_stamp p \<noteq> s \<longrightarrow>
            dispositions (new, removed, changed) (complaint_id s) = [CHANGED] \<and>
            set_update_stamp now3 s \<in> set changed \<and>
            (\<forall>r\<in>set changed. complaint_id r = complaint_id s \<longrightarrow> r = set_update_stamp now3 s) \<and>
            (err = None \<longrightarrow> set_update_stamp now3 s \<in> set table')) \<and>
         (drop_update_stamp p = s \<longrightarrow>
            dispositions (new, removed, changed) (complaint_id s) = [UNCHANGED] \<and>
            (\<exists>appended. table' = table @ appended \<and> complaint_id s \<notin> ids appended))"
proof -
  note c = changed_or_unchanged [OF it pk S frames s p]
  from update_months_data_appended [OF run frames]
  obtain appended where app: "table' = table @ appended"
    "ids appended \<subseteq> ids new \<union> ids removed \<union> ids changed"
    "err = None \<longrightarrow> appended = new @ removed @ changed"
    by blast
  have changed: "dispositions (new, removed, changed) (complaint_id s) = [CHANGED] \<and>
      set_update_stamp now3 s \<in> set changed \<and>
      (err = None \<longrightarrow> set_update_stamp now3 s \<in> set table')"
    if d: "drop_update_stamp p \<noteq> s"
  proof (intro conjI impI)
    show "dispositions (new, removed, changed) (complaint_id s) = [CHANGED]"
      using c(1,2) c(5) d by (simp add: dispositions_def)
    show mem: "set_update_stamp now3 s \<in> set changed"
      using c(4) d by simp
    assume "err = None"
    with app(3) have "appended = new @ removed @ changed" by simp
    with mem show "set_update_stamp now3 s \<in> set table'"
      unfolding app(1) by simp
  qed
  have unchanged: "dispositions (new, removed, changed) (complaint_id s) = [UNCHANGED] \<and>
      (\<exists>appended. table' = table @ appended \<and> complaint_id s \<notin> ids appended)"
    if d: "drop_update_stamp p = s"
  proof (intro conjI)
    have none: "complaint_id s \<notin> ids new" "complaint_id s \<notin> ids removed"
      "complaint_id s \<notin> ids changed"
      using c(1,2) c(5) d by simp_all
    then show "dispositions (new, removed, changed) (complaint_id s) = [UNCHANGED]"
      by (simp add: dispositions_UNCHANGED)
    from none app(2) have "complaint_id s \<notin> ids appended" by blast
    with app(1) show "\<exists>appended. table' = table @ appended \<and> complaint_id s \<notin> ids appended"
      by blast
  qed
  show ?thesis
    using changed unchanged c(3) by blast
qed

section \<open>Facts about a second run\<close>














lemma removed_frame:
  assumes "frames_of_run set_iter reader date_month_ago now1 now2 now3 table = (new, removed, changed)"
  shows "removed = map (\<lambda>p. set_update_stamp now2 (only_complaint_id_and_date_received p))
           (filter (\<lambda>p. complaint_id p \<notin> ids (snapshot reader date_month_ago) \<and> product p \<noteq> NULL)
              (prior set_iter table date_month_ago))"
  using assms by (auto simp: frames_of_run_eq Let_def)

section \<open>Claims\<close>




text \<open>
  Claim C2 says that the resolver returns one row per entity also when several rows of the
  entity share the maximal \<^verbatim>\<open>update_stamp\<close>. The code keeps every row that carries the
  maximum: of two rows of complaint 4 with the stamp 1 both are returned.
\<close>

theorem latest_version_resolver_counterexample:
  "map complaint_id (leave_only_last_update_in_df remdups
     [set_update_stamp 1 mortgage_4, set_update_stamp 1 mortgage_4_again]) = [4, 4]"
  by code_simp

text \<open>
  Claim C2, amended: the resolver returns exactly the rows that carry the maximal
  \<^verbatim>\<open>update_stamp\<close> of their \<^verbatim>\<open>complaint_id\<close>, so every entity of the input is in the result;
  on an input in which no two rows share \<^verbatim>\<open>complaint_id\<close> and \<^verbatim>\<open>update_stamp\<close>, as the primary
  key of the table guarantees, the result has one row per \<^verbatim>\<open>complaint_id\<close>.
\<close>

theorem latest_version_resolver:
  assumes "set_iteration set_iter"
  shows "set (leave_only_last_update_in_df set_iter df) = {r. is_latest df r} \<and>
         ids (leave_only_last_update_in_df set_iter df) = ids df \<and>
         (distinct (map primary_key df) \<longrightarrow>
            distinct (map complaint_id (leave_only_last_update_in_df set_iter df)))"
  using set_leave_only_last_update_in_df [OF assms, of df] ids_latest [of df]
    distinct_ids_leave_only_last_update_in_df [OF assms, of df]
  by (simp add: ids_def)

theorem latest_version_resolver_witness:
  "distinct (map complaint_id (leave_only_last_update_in_df remdups
     [set_update_stamp 1 loan_7, loan_7_removed, set_update_stamp 1 mortgage_4])) \<and>
   leave_only_last_update_in_df remdups
     [set_update_stamp 1 loan_7, loan_7_removed, set_update_stamp 1 mortgage_4] =
   [set_update_stamp 1 mortgage_4, loan_7_removed]"
proof -
  have it: "set_iteration remdups"
    by (simp add: set_iteration_def)
  have pk: "distinct (map primary_key
      [set_update_stamp 1 loan_7, loan_7_removed, set_update_stamp 1 mortgage_4])"
    by code_simp
  have res: "leave_only_last_update_in_df remdups
      [set_update_stamp 1 loan_7, loan_7_removed, set_update_stamp 1 mortgage_4] =
      [set_update_stamp 1 mortgage_4, loan_7_removed]"
    by code_simp
  from latest_version_resolver [OF it,
      of "[set_update_stamp 1 loan_7, loan_7_removed, set_update_stamp 1 mortgage_4]"] pk res
  show ?thesis by blast
qed

text \<open>
  Claim C3 says that all the rows appended in one run carry one \<^verbatim>\<open>update_stamp\<close>, assigned
  at the start of the run. The code reads the clock once in each stage, so the rows of two
  stages differ in their stamp as soon as the clock has moved between the stages: here the
  new row carries \<open>10\<close> and the tombstone \<open>11\<close>.
\<close>

theorem one_stamp_per_run_counterexample:
  "map update_stamp (drop 1 (snd (update_months_data remdups [[mortgage_4]] 0 10 11 12
     [set_update_stamp 1 loan_7]))) = [10, 11]"
  by code_simp

text \<open>
  Claim C3, amended: the stamp is read once per stage. Whatever the run appends is a prefix
  of the three frames, and every row of a frame carries the clock reading of its stage.
\<close>

theorem one_stamp_per_stage:
  assumes "update_months_data set_iter reader date_month_ago now1 now2 now3 table = (err, table')"
    and "frames_of_run set_iter reader date_month_ago now1 now2 now3 table = (new, removed, changed)"
  shows "(table' = table \<or> table' = table @ new \<or> table' = table @ new @ removed \<or>
          table' = table @ new @ removed @ changed) \<and>
         (\<forall>r\<in>set new. update_stamp r = now1) \<and>
         (\<forall>r\<in>set removed. update_stamp r = now2) \<and>
         (\<forall>r\<in>set changed. update_stamp r = now3)"
  using update_months_data_cases [OF assms] frames_of_run_stamps [OF assms(2)] by auto

theorem one_stamp_per_stage_witness:
  "update_stamp (set_update_stamp 10 mortgage_4) = 10 \<and>
   update_stamp (set_update_stamp 11
     (only_complaint_id_and_date_received (set_update_stamp 1 loan_7))) = 11"
proof -
  have run: "update_months_data remdups [[mortgage_4]] 0 10 11 12 [set_update_stamp 1 loan_7] =
      (None, [set_update_stamp 1 loan_7, set_update_stamp 10 mortgage_4,
              set_update_stamp 11 (only_complaint_id_and_date_received (set_update_stamp 1 loan_7))])"
    by code_simp
  have frames: "frames_of_run remdups [[mortgage_4]] 0 10 11 12 [set_update_stamp 1 loan_7] =
      ([set_update_stamp 10 mortgage_4],
       [set_update_stamp 11 (only_complaint_id_and_date_received (set_update_stamp 1 loan_7))],
       [])"
    by code_simp
  from one_stamp_per_stage [OF run frames] show ?thesis
    by simp
qed

text \<open>
  Claim C4. In a table that respects its primary key and a snapshot with one row per
  \<^verbatim>\<open>complaint_id\<close>, take an entity with the row \<open>s\<close> in the snapshot and the row \<open>p\<close> in the
  resolved prior set. If \<open>s\<close> and \<open>p\<close> differ in a column other than \<^verbatim>\<open>update_stamp\<close>, the
  entity is changed: \<^verbatim>\<open>update_changed_entries\<close> has exactly one row for it, the full row \<open>s\<close>
  with the stamp of the stage, and a run without exception appends it. If they are equal,
  the entity is unchanged and the run appends no row for it.
\<close>

theorem changed_iff_payload_differs:
  assumes it: "set_iteration set_iter" and pk: "distinct (map primary_key table)"
    and S: "distinct (map complaint_id (snapshot reader date_month_ago))"
    and run: "update_months_data set_iter reader date_month_ago now1 now2 now3 table = (err, table')"
    and frames: "frames_of_run set_iter reader date_month_ago now1 now2 now3 table =
                   (new, removed, changed)"
    and s: "s \<in> set (snapshot reader date_month_ago)"
    and p: "p \<in> set (prior set_iter table date_month_ago)" "complaint_id p = complaint_id s"
  shows "(drop_update_stamp p \<noteq> s \<longrightarrow>
            dispositions (new, removed, changed) (complaint_id s) = [CHANGED] \<and>
            set_update_stamp now3 s \<in> set changed \<and>
            (\<forall>r\<in>set changed. complaint_id r = complaint_id s \<longrightarrow> r = set_update_stamp now3 s) \<and>
            (err = None \<longrightarrow> set_update_stamp now3 s \<in> set table')) \<and>
         (drop_update_stamp p = s \<longrightarrow>
            dispositions (new, removed, changed) (complaint_id s) = [UNCHANGED] \<and>
            (\<exists>appended. table' = table @ appended \<and> complaint_id s \<notin> ids appended))"
  by (rule snapshot_row_against_prior_row [OF assms])

theorem changed_iff_payload_differs_witness:
  "dispositions ([], [], [set_update_stamp 12 mortgage_4_again]) 4 = [CHANGED] \<and>
   set_update_stamp 12 mortgage_4_again \<in> set [set_update_stamp 12 mortgage_4_again] \<and>
   set_update_stamp 12 mortgage_4_again \<in>
     set [set_update_stamp 1 mortgage_4, set_update_stamp 1 loan_7,
          set_update_stamp 12 mortgage_4_again] \<and>
   dispositions ([], [], [set_update_stamp 12 mortgage_4_again]) 7 = [UNCHANGED]"
proof -
  have it: "set_iteration remdups"
    by (simp add: set_iteration_def)
  have pk: "distinct (map primary_key [set_update_stamp 1 mortgage_4, set_update_stamp 1 loan_7])"
    by code_simp
  have S: "snapshot [[mortgage_4_again, loan_7]] 0 = [mortgage_4_again, loan_7]"
    by code_simp
  have P: "prior remdups [set_update_stamp 1 mortgage_4, set_update_stamp 1 loan_7] 0 =
      [set_update_stamp 1 mortgage_4, set_update_stamp 1 loan_7]"
    by code_simp
  have dS: "distinct (map complaint_id (snapshot [[mortgage_4_again, loan_7]] 0))"
    by code_simp
  have run: "update_months_data remdups [[mortgage_4_again, loan_7]] 0 10 11 12
      [set_update_stamp 1 mortgage_4, set_update_stamp 1 loan_7] =
      (None, [set_update_stamp 1 mortgage_4, set_update_stamp 1 loan_7,
              set_update_stamp 12 mortgage_4_again])"
    by code_simp
  have frames: "frames_of_run remdups [[mortgage_4_again, loan_7]] 0 10 11 12
      [set_update_stamp 1 mortgage_4, set_update_stamp 1 loan_7] =
      ([], [], [set_update_stamp 12 mortgage_4_again])"
    by code_simp
  have s4: "mortgage_4_again \<in> set (snapshot [[mortgage_4_again, loan_7]] 0)"
    and s7: "loan_7 \<in> set (snapshot [[mortgage_4_again, loan_7]] 0)"
    unfolding S by simp_all
  have p4: "set_update_stamp 1 mortgage_4 \<in>
      set (prior remdups [set_update_stamp 1 mortgage_4, set_update_stamp 1 loan_7] 0)"
    and p7: "set_update_stamp 1 loan_7 \<in>
      set (prior remdups [set_update_stamp 1 mortgage_4, set_update_stamp 1 loan_7] 0)"
    unfolding P by simp_all
  have id4: "complaint_id (set_update_stamp 1 mortgage_4) = complaint_id mortgage_4_again"
    and id7: "complaint_id (set_update_stamp 1 loan_7) = complaint_id loan_7"
    by (simp_all add: mortgage_4_def mortgage_4_again_def)
  have differs: "drop_update_stamp (set_update_stamp 1 mortgage_4) \<noteq> mortgage_4_again"
    and same: "drop_update_stamp (set_update_stamp 1 loan_7) = loan_7"
    by (simp_all add: mortgage_4_def mortgage_4_again_def)
  have four: "complaint_id mortgage_4_again = 4" and seven: "complaint_id loan_7 = 7"
    by (simp_all add: mortgage_4_again_def loan_7_def)
  from changed_iff_payload_differs [OF it pk dS run frames s4 p4 id4]
    changed_iff_payload_differs [OF it pk dS run frames s7 p7 id7] differs same
  show ?thesis
    unfolding four seven by blast
qed

text \<open>
  Claim C5. The three frames of a run never share a \<^verbatim>\<open>complaint_id\<close>, so every entity of
  the snapshot or of the resolved prior set has exactly one disposition; what the run
  appends holds at most one row per \<^verbatim>\<open>complaint_id\<close>, and none for an unchanged entity.
\<close>

theorem one_disposition_and_one_row_per_entity:
  assumes run: "update_months_data set_iter reader date_month_ago now1 now2 now3 table = (err, table')"
    and frames: "frames_of_run set_iter reader date_month_ago now1 now2 now3 table = (new, removed, changed)"
  shows "(\<forall>e \<in> ids (snapshot reader date_month_ago) \<union> ids (prior set_iter table date_month_ago).
            \<exists>d. dispositions (new, removed, changed) e = [d]) \<and>
         (\<exists>appended. table' = table @ appended \<and> distinct (map complaint_id appended) \<and>
            (\<forall>e. dispositions (new, removed, changed) e = [UNCHANGED] \<longrightarrow> e \<notin> ids appended))"
proof -
  note fi = frames_of_run_ids [OF frames]
  have "\<exists>d. dispositions (new, removed, changed) e = [d]" for e
    using fi by (intro dispositions_single) auto
  moreover from update_months_data_appended [OF run frames]
  obtain appended where "table' = table @ appended" "distinct (map complaint_id appended)"
    "ids appended \<subseteq> ids new \<union> ids removed \<union> ids changed"
    by blast
  then have "\<exists>appended. table' = table @ appended \<and> distinct (map complaint_id appended) \<and>
            (\<forall>e. dispositions (new, removed, changed) e = [UNCHANGED] \<longrightarrow> e \<notin> ids appended)"
    by (intro exI [of _ appended]) (auto simp: dispositions_UNCHANGED)
  ultimately show ?thesis by blast
qed

theorem one_disposition_and_one_row_per_entity_witness:
  "dispositions ([set_update_stamp 10 mortgage_4],
      [set_update_stamp 11 (only_complaint_id_and_date_received (set_update_stamp 1 loan_7))],
      []) 4 = [NEW] \<and>
   dispositions ([set_update_stamp 10 mortgage_4],
      [set_update_stamp 11 (only_complaint_id_and_date_received (set_update_stamp 1 loan_7))],
      []) 7 = [REMOVED] \<and>
   distinct (map complaint_id [set_update_stamp 10 mortgage_4,
      set_update_stamp 11 (only_complaint_id_and_date_received (set_update_stamp 1 loan_7))])"
proof -
  have run: "update_months_data remdups [[mortgage_4]] 0 10 11 12 [set_update_stamp 1 loan_7] =
      (None, [set_update_stamp 1 loan_7, set_update_stamp 10 mortgage_4,
              set_update_stamp 11 (only_complaint_id_and_date_received (set_update_stamp 1 loan_7))])"
    by code_simp
  have frames: "frames_of_run remdups [[mortgage_4]] 0 10 11 12 [set_update_stamp 1 loan_7] =
      ([set_update_stamp 10 mortgage_4],
       [set_update_stamp 11 (only_complaint_id_and_date_received (set_update_stamp 1 loan_7))],
       [])"
    by code_simp
  from one_disposition_and_one_row_per_entity [OF run frames] show ?thesis
    by (simp add: dispositions_def ids_def mortgage_4_def loan_7_def)
qed

text \<open>
  Claim C6. An entity whose rows in the resolved prior set are tombstones and which is absent
  from the snapshot is unchanged: no stage has a row for it, and the run appends none.
\<close>

theorem tombstoned_and_absent_stays_silent:
  assumes run: "update_months_data set_iter reader date_month_ago now1 now2 now3 table = (err, table')"
    and frames: "frames_of_run set_iter reader date_month_ago now1 now2 now3 table = (new, removed, changed)"
    and prior: "e \<in> ids (prior set_iter table date_month_ago)"
    and tomb: "\<forall>p\<in>set (prior set_iter table date_month_ago). complaint_id p = e \<longrightarrow> tombstone p"
    and absent: "e \<notin> ids (snapshot reader date_month_ago)"
  shows "dispositions (new, removed, changed) e = [UNCHANGED] \<and>
         (\<exists>appended. table' = table @ appended \<and> e \<notin> ids appended)"
proof -
  note fi = frames_of_run_ids [OF frames]
  have "e \<notin> ids new" "e \<notin> ids changed"
    using fi prior absent by auto
  moreover have "e \<notin> ids removed"
  proof -
    from frames obtain Q where "removed = map (set_update_stamp now2)
       (map only_complaint_id_and_date_received
         (filter (\<lambda>r. complaint_id r \<notin> ids (snapshot reader date_month_ago) \<and> product r \<noteq> NULL)
            (prior set_iter table date_month_ago)))"
      by (rule frames_of_run_shape)
    with tomb show ?thesis
      by (auto simp: ids_filter tombstone_def)
  qed
  ultimately have un: "dispositions (new, removed, changed) e = [UNCHANGED]"
    by (simp add: dispositions_UNCHANGED)
  from update_months_data_appended [OF run frames]
  obtain appended where "table' = table @ appended"
    "ids appended \<subseteq> ids new \<union> ids removed \<union> ids changed"
    by blast
  with un show ?thesis
    by (auto simp: dispositions_UNCHANGED)
qed


theorem tombstoned_and_absent_stays_silent_witness:
  "dispositions ([set_update_stamp 10 card_9], [], []) 7 = [UNCHANGED] \<and>
   7 \<notin> ids [set_update_stamp 10 card_9]"
proof -
  have run: "update_months_data remdups [[mortgage_4, card_9]] 0 10 11 12
      [set_update_stamp 1 loan_7, loan_7_removed, set_update_stamp 1 mortgage_4] =
      (None, [set_update_stamp 1 loan_7, loan_7_removed, set_update_stamp 1 mortgage_4,
              set_update_stamp 10 card_9])"
    by code_simp
  have frames: "frames_of_run remdups [[mortgage_4, card_9]] 0 10 11 12
      [set_update_stamp 1 loan_7, loan_7_removed, set_update_stamp 1 mortgage_4] =
      ([set_update_stamp 10 card_9], [], [])"
    by code_simp
  have P: "prior remdups [set_update_stamp 1 loan_7, loan_7_removed, set_update_stamp 1 mortgage_4] 0 =
      [set_update_stamp 1 mortgage_4, loan_7_removed]"
    by code_simp
  have S: "snapshot [[mortgage_4, card_9]] 0 = [mortgage_4, card_9]"
    by code_simp
  have prior: "7 \<in> ids (prior remdups
      [set_update_stamp 1 loan_7, loan_7_removed, set_update_stamp 1 mortgage_4] 0)"
    unfolding P by (simp add: ids_def loan_7_removed_def loan_7_def)
  have tomb: "\<forall>p\<in>set (prior remdups
      [set_update_stamp 1 loan_7, loan_7_removed, set_update_stamp 1 mortgage_4] 0).
      complaint_id p = 7 \<longrightarrow> tombstone p"
    unfolding P by (simp add: tombstone_def loan_7_removed_def loan_7_def mortgage_4_def)
  have absent: "7 \<notin> ids (snapshot [[mortgage_4, card_9]] 0)"
    unfolding S by (simp add: ids_def mortgage_4_def card_9_def)
  from tombstoned_and_absent_stays_silent [OF run frames prior tomb absent] show ?thesis
    by (simp add: ids_def card_9_def)
qed

text \<open>
  Claim C7 says that an entity whose latest prior version is a tombstone and which is back in
  the snapshot is classified NEW. \<^verbatim>\<open>save_new_entries\<close> only takes the rows whose
  \<^verbatim>\<open>complaint_id\<close> is not in \<^verbatim>\<open>entries_from_db\<close>, and the tombstone is there: the row is
  written by \<^verbatim>\<open>update_changed_entries\<close>.
\<close>

theorem reactivation_counterexample:
  "dispositions (frames_of_run remdups [[loan_7]] 0 10 11 12
     [set_update_stamp 1 loan_7, loan_7_removed]) 7 = [CHANGED]"
  by code_simp

text \<open>
  Claim C7, amended: such an entity, when its snapshot row \<open>s\<close> has a business column that is
  not NULL, is changed: \<^verbatim>\<open>update_changed_entries\<close> has exactly one row for it, the full row
  \<open>s\<close> with the stamp of that stage, and a run without exception appends it.
\<close>

theorem reactivation_is_written_as_changed:
  assumes it: "set_iteration set_iter" and pk: "distinct (map primary_key table)"
    and S: "distinct (map complaint_id (snapshot reader date_month_ago))"
    and run: "update_months_data set_iter reader date_month_ago now1 now2 now3 table = (err, table')"
    and frames: "frames_of_run set_iter reader date_month_ago now1 now2 now3 table =
                   (new, removed, changed)"
    and s: "s \<in> set (snapshot reader date_month_ago)"
    and payload: "\<not> tombstone s"
    and prior: "complaint_id s \<in> ids (prior set_iter table date_month_ago)"
    and tomb: "\<forall>p\<in>set (prior set_iter table date_month_ago).
                 complaint_id p = complaint_id s \<longrightarrow> tombstone p"
  shows "dispositions (new, removed, changed) (complaint_id s) = [CHANGED] \<and>
         set_update_stamp now3 s \<in> set changed \<and>
         (\<forall>r\<in>set changed. complaint_id r = complaint_id s \<longrightarrow> r = set_update_stamp now3 s) \<and>
         (err = None \<longrightarrow> set_update_stamp now3 s \<in> set table')"
proof -
  from prior obtain p where p: "p \<in> set (prior set_iter table date_month_ago)"
    "complaint_id p = complaint_id s"
    by (auto simp: ids_def)
  with tomb have "tombstone (drop_update_stamp p)" by simp
  with payload have "drop_update_stamp p \<noteq> s" by auto
  with snapshot_row_against_prior_row [OF it pk S run frames s p] show ?thesis
    by blast
qed


theorem reactivation_is_written_as_changed_witness:
  "dispositions ([], [], [set_update_stamp 12 loan_7]) 7 = [CHANGED] \<and>
   set_update_stamp 12 loan_7 \<in> set [set_update_stamp 12 loan_7] \<and>
   set_update_stamp 12 loan_7 \<in>
     set [set_update_stamp 1 loan_7, loan_7_removed, set_update_stamp 12 loan_7]"
proof -
  have it: "set_iteration remdups"
    by (simp add: set_iteration_def)
  have pk: "distinct (map primary_key [set_update_stamp 1 loan_7, loan_7_removed])"
    by code_simp
  have S: "snapshot [[loan_7]] 0 = [loan_7]"
    by code_simp
  have P: "prior remdups [set_update_stamp 1 loan_7, loan_7_removed] 0 = [loan_7_removed]"
    by code_simp
  have dS: "distinct (map complaint_id (snapshot [[loan_7]] 0))"
    by code_simp
  have run: "update_months_data remdups [[loan_7]] 0 10 11 12
      [set_update_stamp 1 loan_7, loan_7_removed] =
      (None, [set_update_stamp 1 loan_7, loan_7_removed, set_update_stamp 12 loan_7])"
    by code_simp
  have frames: "frames_of_run remdups [[loan_7]] 0 10 11 12
      [set_update_stamp 1 loan_7, loan_7_removed] = ([], [], [set_update_stamp 12 loan_7])"
    by code_simp
  have s: "loan_7 \<in> set (snapshot [[loan_7]] 0)"
    unfolding S by simp
  have payload: "\<not> tombstone loan_7"
    by (simp add: tombstone_def loan_7_def)
  have prior: "complaint_id loan_7 \<in>
      ids (prior remdups [set_update_stamp 1 loan_7, loan_7_removed] 0)"
    unfolding P by (simp add: ids_def loan_7_removed_def)
  have tomb: "\<forall>p\<in>set (prior remdups [set_update_stamp 1 loan_7, loan_7_removed] 0).
      complaint_id p = complaint_id loan_7 \<longrightarrow> tombstone p"
    unfolding P by (simp add: tombstone_def loan_7_removed_def list_all_iff)
  have seven: "complaint_id loan_7 = 7"
    by (simp add: loan_7_def)
  from reactivation_is_written_as_changed [OF it pk dS run frames s payload prior tomb]
  show ?thesis
    unfolding seven by blast
qed

text \<open>
  Claim C8. An entity is removed when its row \<open>p\<close> in the resolved prior set is absent from
  the snapshot and has a \<^verbatim>\<open>product\<close>. For every such row the frame of
  \<^verbatim>\<open>delete_disappeared_entries\<close> holds a tombstone: \<^verbatim>\<open>product\<close> and every other business
  column are NULL, while \<^verbatim>\<open>complaint_id\<close> and \<^verbatim>\<open>date_received\<close> are those of \<open>p\<close>, the date not
  NULL, and \<^verbatim>\<open>update_stamp\<close> is the clock reading of the stage; a run that ends without
  exception has appended it. The frame holds no other rows.
\<close>

theorem tombstone_shape:
  assumes run: "update_months_data set_iter reader date_month_ago now1 now2 now3 table = (err, table')"
    and frames: "frames_of_run set_iter reader date_month_ago now1 now2 now3 table = (new, removed, changed)"
  shows "(\<forall>p\<in>set (prior set_iter table date_month_ago).
            complaint_id p \<notin> ids (snapshot reader date_month_ago) \<and> product p \<noteq> NULL \<longrightarrow>
            dispositions (new, removed, changed) (complaint_id p) = [REMOVED] \<and>
            (\<exists>r\<in>set removed.
               complaint_id r = complaint_id p \<and> date_received r = date_received p \<and>
               date_received r \<noteq> None \<and> update_stamp r = now2 \<and> tombstone r \<and>
               (err = None \<longrightarrow> r \<in> set table'))) \<and>
         (\<forall>r\<in>set removed.
            tombstone r \<and> date_received r \<noteq> None \<and> update_stamp r = now2 \<and>
            complaint_id r \<in> ids (prior set_iter table date_month_ago) \<and>
            complaint_id r \<notin> ids (snapshot reader date_month_ago) \<and>
            dispositions (new, removed, changed) (complaint_id r) = [REMOVED] \<and>
            (err = None \<longrightarrow> r \<in> set table'))"
proof -
  let ?S = "snapshot reader date_month_ago" and ?P = "prior set_iter table date_month_ago"
  note rf = removed_frame [OF frames]
  note fi = frames_of_run_ids [OF frames]
  have in_table: "err = None \<longrightarrow> r \<in> set table'" if "r \<in> set removed" for r
    using update_months_data_cases [OF run frames] that by auto
  have disp: "dispositions (new, removed, changed) e = [REMOVED]" if "e \<in> ids removed" for e
    using that fi by (auto simp: dispositions_def)
  have shape: "tombstone r \<and> date_received r \<noteq> None \<and> update_stamp r = now2 \<and>
      complaint_id r \<in> ids ?P \<and> complaint_id r \<notin> ids ?S"
    if r: "r \<in> set removed" for r
  proof -
    from r obtain p where p: "p \<in> set ?P" "complaint_id p \<notin> ids ?S"
      "r = set_update_stamp now2 (only_complaint_id_and_date_received p)"
      unfolding rf by auto
    have "date_received p \<noteq> None"
      using prior_received [OF p(1)] received_after_Some by blast
    with p show ?thesis
      by (auto simp: tombstone_def ids_def list_all_iff)
  qed
  have first: "dispositions (new, removed, changed) (complaint_id p) = [REMOVED] \<and>
      (\<exists>r\<in>set removed.
         complaint_id r = complaint_id p \<and> date_received r = date_received p \<and>
         date_received r \<noteq> None \<and> update_stamp r = now2 \<and> tombstone r \<and>
         (err = None \<longrightarrow> r \<in> set table'))"
    if p: "p \<in> set ?P" "complaint_id p \<notin> ids ?S" "product p \<noteq> NULL" for p
  proof -
    define r where "r = set_update_stamp now2 (only_complaint_id_and_date_received p)"
    have r: "r \<in> set removed"
      unfolding rf r_def using p by simp
    have id: "complaint_id r = complaint_id p" "date_received r = date_received p"
      by (simp_all add: r_def)
    from r have "complaint_id r \<in> ids removed"
      unfolding ids_def by (simp only: set_map) (rule imageI)
    with disp id(1) have "dispositions (new, removed, changed) (complaint_id p) = [REMOVED]"
      by simp
    moreover have "complaint_id r = complaint_id p \<and> date_received r = date_received p \<and>
         date_received r \<noteq> None \<and> update_stamp r = now2 \<and> tombstone r \<and>
         (err = None \<longrightarrow> r \<in> set table')"
      using shape [OF r] in_table [OF r] id by simp
    ultimately show ?thesis
      using r by blast
  qed
  have second: "tombstone r \<and> date_received r \<noteq> None \<and> update_stamp r = now2 \<and>
      complaint_id r \<in> ids ?P \<and> complaint_id r \<notin> ids ?S \<and>
      dispositions (new, removed, changed) (complaint_id r) = [REMOVED] \<and>
      (err = None \<longrightarrow> r \<in> set table')"
    if r: "r \<in> set removed" for r
  proof -
    from r have "complaint_id r \<in> ids removed"
      unfolding ids_def by (simp only: set_map) (rule imageI)
    with shape [OF r] in_table [OF r] disp show ?thesis
      by simp
  qed
  show ?thesis
    using first second by blast
qed

theorem tombstone_shape_witness:
  "\<exists>r\<in>set (snd (update_months_data remdups [[mortgage_4]] 0 10 11 12 [set_update_stamp 1 loan_7])).
     complaint_id r = 7 \<and> date_received r = Some 5 \<and> update_stamp r = 11 \<and> tombstone r"
proof -
  have run: "update_months_data remdups [[mortgage_4]] 0 10 11 12 [set_update_stamp 1 loan_7] =
      (None, snd (update_months_data remdups [[mortgage_4]] 0 10 11 12 [set_update_stamp 1 loan_7]))"
    by code_simp
  obtain new removed changed where frames:
    "frames_of_run remdups [[mortgage_4]] 0 10 11 12 [set_update_stamp 1 loan_7] =
       (new, removed, changed)"
    by (metis prod_cases3)
  have P: "prior remdups [set_update_stamp 1 loan_7] 0 = [set_update_stamp 1 loan_7]"
    by code_simp
  have S: "snapshot [[mortgage_4]] 0 = [mortgage_4]"
    by code_simp
  have p: "set_update_stamp 1 loan_7 \<in> set (prior remdups [set_update_stamp 1 loan_7] 0)"
    unfolding P by simp
  have absent: "complaint_id (set_update_stamp 1 loan_7) \<notin> ids (snapshot [[mortgage_4]] 0)"
    unfolding S by (simp add: ids_def loan_7_def mortgage_4_def)
  have payload: "product (set_update_stamp 1 loan_7) \<noteq> NULL"
    by (simp add: loan_7_def)
  from tombstone_shape [OF run frames] p absent payload
  obtain r where "r \<in> set removed"
    "complaint_id r = complaint_id (set_update_stamp 1 loan_7)"
    "date_received r = date_received (set_update_stamp 1 loan_7)"
    "update_stamp r = 11" "tombstone r"
    "r \<in> set (snd (update_months_data remdups [[mortgage_4]] 0 10 11 12 [set_update_stamp 1 loan_7]))"
    by blast
  then show ?thesis
    by (intro bexI [of _ r]) (simp_all add: loan_7_def)
qed



text \<open>
  Claim C10. \<^verbatim>\<open>save_new_entries\<close> leaves the column \<^verbatim>\<open>already_saved\<close> in \<^verbatim>\<open>new_entries\<close> and
  \<^verbatim>\<open>delete_disappeared_entries\<close> the column \<^verbatim>\<open>was_removed\<close> in \<^verbatim>\<open>entries_from_db\<close>, the
  rows being untouched. \<^verbatim>\<open>update_changed_entries\<close> reads both: on the dataframes as they were
  before the two stages it raises \<^verbatim>\<open>KeyError\<close>, on the dataframes that the two stages return
  it builds its frame and hands it to \<^verbatim>\<open>to_sql\<close>.
\<close>

theorem stages_communicate_through_added_columns:
  assumes fresh: "already_saved new_entries = None" "was_removed entries_from_db = None"
    and new: "save_new_entries now1 new_entries entries_from_db table =
              Inr (new_entries', table1)"
    and removed: "delete_disappeared_entries now2 new_entries' entries_from_db table1 =
              Inr (entries_from_db', table2)"
  shows "new_rows new_entries' = new_rows new_entries \<and>
         already_saved new_entries' =
           Some (isin (map complaint_id (new_rows new_entries))
                   (map complaint_id (db_rows entries_from_db))) \<and>
         db_rows entries_from_db' = db_rows entries_from_db \<and>
         was_removed entries_from_db' =
           Some (map Not (isin (map complaint_id (db_rows entries_from_db))
                            (map complaint_id (new_rows new_entries)))) \<and>
         update_changed_entries now3 new_entries entries_from_db' table2 =
           Inl (KeyError ''already_saved'') \<and>
         update_changed_entries now3 new_entries' entries_from_db table2 =
           Inl (KeyError ''was_removed'') \<and>
         (\<exists>df_to_save. update_changed_entries_frame now3 new_entries' entries_from_db' =
            Inr df_to_save \<and>
            update_changed_entries now3 new_entries' entries_from_db' table2 =
            to_sql df_to_save table2)"
proof -
  from new have ne': "new_entries' = new_entries\<lparr>already_saved :=
      Some (isin (map complaint_id (new_rows new_entries))
              (map complaint_id (db_rows entries_from_db)))\<rparr>"
    by (auto simp: save_new_entries_def save_new_entries_frame_def Let_def split: sum.splits)
  from removed have db': "entries_from_db' = entries_from_db\<lparr>was_removed :=
      Some (map Not (isin (map complaint_id (db_rows entries_from_db))
                       (map complaint_id (new_rows new_entries'))))\<rparr>"
    by (auto simp: delete_disappeared_entries_def delete_disappeared_entries_frame_def Let_def
        split: sum.splits)
  show ?thesis
    using fresh
    by (simp add: ne' db' update_changed_entries_def update_changed_entries_frame_def Let_def)
qed

theorem stages_communicate_through_added_columns_witness:
  "update_changed_entries 12 \<lparr>new_rows = [mortgage_4], already_saved = None\<rparr>
     \<lparr>db_rows = [set_update_stamp 1 loan_7], was_removed = Some [True]\<rparr>
     [set_update_stamp 1 loan_7, set_update_stamp 10 mortgage_4,
      set_update_stamp 11 (only_complaint_id_and_date_received (set_update_stamp 1 loan_7))] =
     Inl (KeyError ''already_saved'') \<and>
   update_changed_entries 12 \<lparr>new_rows = [mortgage_4], already_saved = Some [False]\<rparr>
     \<lparr>db_rows = [set_update_stamp 1 loan_7], was_removed = None\<rparr>
     [set_update_stamp 1 loan_7, set_update_stamp 10 mortgage_4,
      set_update_stamp 11 (only_complaint_id_and_date_received (set_update_stamp 1 loan_7))] =
     Inl (KeyError ''was_removed'')"
proof -
  have new: "save_new_entries 10 \<lparr>new_rows = [mortgage_4], already_saved = None\<rparr>
      \<lparr>db_rows = [set_update_stamp 1 loan_7], was_removed = None\<rparr> [set_update_stamp 1 loan_7] =
      Inr (\<lparr>new_rows = [mortgage_4], already_saved = Some [False]\<rparr>,
           [set_update_stamp 1 loan_7, set_update_stamp 10 mortgage_4])"
    by code_simp
  have removed: "delete_disappeared_entries 11
      \<lparr>new_rows = [mortgage_4], already_saved = Some [False]\<rparr>
      \<lparr>db_rows = [set_update_stamp 1 loan_7], was_removed = None\<rparr>
      [set_update_stamp 1 loan_7, set_update_stamp 10 mortgage_4] =
      Inr (\<lparr>db_rows = [set_update_stamp 1 loan_7], was_removed = Some [True]\<rparr>,
           [set_update_stamp 1 loan_7, set_update_stamp 10 mortgage_4,
            set_update_stamp 11 (only_complaint_id_and_date_received (set_update_stamp 1 loan_7))])"
    by code_simp
  from stages_communicate_through_added_columns [OF _ _ new removed, of 12] show ?thesis
    by fastforce
qed

end
